theory Spec2Isabelle
  imports Main "HOL-Library.Word"
begin

unbundle bit_operations_syntax

section \<open>Data model of dirscan\<close>

text \<open>
  The four structs of \<^verbatim>\<open>main.go\<close>. Go's \<^verbatim>\<open>int64\<close> fields are 64-bit words, so
  \<open>+\<close> wraps as the machine addition does. The Go field names \<^verbatim>\<open>name\<close>,
  \<^verbatim>\<open>size\<close>, \<^verbatim>\<open>count\<close> are shared by the structs; here each carries the prefix of
  its struct.
\<close>

type_synonym int64 = "64 word"
type_synonym uint64 = "64 word"
type_synonym uint32 = "32 word"

record fileTypeUserInfo =
  ftu_name :: string
  ftu_size :: int64
  ftu_count :: int64

record fileType =
  ft_extension :: string
  ft_size :: int64
  ft_count :: int64
  ft_users :: "fileTypeUserInfo list"

record userFileType =
  uft_extension :: string
  uft_size :: int64
  uft_count :: int64

record userInfo =
  ui_name :: string
  ui_size :: int64
  ui_count :: int64
  ui_filetypes :: "userFileType list"

text \<open>The accumulators that \<^verbatim>\<open>main\<close> declares before the walk.\<close>

record scan_state =
  fileTypes :: "fileType list"
  users :: "userInfo list"
  totalFilesCount :: int64
  totalCapacity :: int64
  totalDirectoriesCount :: int64

definition init_state :: scan_state where
  "init_state = \<lparr>fileTypes = [], users = [], totalFilesCount = 0, totalCapacity = 0,
     totalDirectoriesCount = 0\<rparr>"

text \<open>
  What the walk hands to the callback, and what the callback's system calls answer for
  that path: \<open>info = None\<close> is a nil \<^verbatim>\<open>os.FileInfo\<close> (the walker's own lstat failed),
  \<open>err\<close> says whether the walker reports an error, \<open>opened\<close> is the answer of
  \<^verbatim>\<open>os.Open\<close>: \<open>None\<close> when it fails, otherwise the lines that the
  \<^verbatim>\<open>bufio.Scanner\<close> yields before \<^verbatim>\<open>Scan\<close> returns false, each as the runes that
  \<^verbatim>\<open>range line\<close> iterates over.
\<close>

type_synonym rune = nat

record FileInfo =
  fi_IsDir :: bool
  fi_Size :: int64
  fi_Uid :: uint32

record walk_entry =
  path :: string
  info :: "FileInfo option"
  err :: bool
  opened :: "rune list list option"

text \<open>\<^verbatim>\<open>user.User\<close>, with the two fields the program touches.\<close>

record User =
  u_Uid :: string
  u_Username :: string

datatype panic = NilPointerDereference | IntegerDivideByZero | IndexOutOfRange

text \<open>
  A callback either leaves through one of its \<^verbatim>\<open>return nil\<close> statements in the middle
  of the body or goes on with a value.
\<close>

datatype 'a flow = ReturnNil | GoOn 'a

section \<open>Library functions the callback uses\<close>

text \<open>\<^verbatim>\<open>fmt.Sprintf("%d", n)\<close> for a non-negative and for a signed number.\<close>

fun Sprintf_d :: "nat \<Rightarrow> string" where
  "Sprintf_d n =
     (if n < 10 then [''0123456789'' ! n]
      else Sprintf_d (n div 10) @ [''0123456789'' ! (n mod 10)])"

declare Sprintf_d.simps [simp del]


text \<open>
  \<^verbatim>\<open>filepath.Ext\<close>: scan from the end of the path back to the last separator; the
  extension starts at the first dot met. The scan runs over the reversed path and collects
  what it has passed.
\<close>

fun ExtRev :: "string \<Rightarrow> string \<Rightarrow> string" where
  "ExtRev [] acc = []"
| "ExtRev (c # cs) acc =
     (if c = CHR ''/'' then []
      else if c = CHR ''.'' then c # acc
      else ExtRev cs (c # acc))"

definition Ext :: "string \<Rightarrow> string" where
  "Ext p = ExtRev (rev p) []"

section \<open>The aggregation (main.go, lines 324 to 433)\<close>

text \<open>
  Each of the four loops scans a list for a key, updates the first match and breaks; when
  no element matched, the entry is appended. The recursion below is that loop together
  with the append that follows it.
\<close>

fun addFileTypeUser :: "fileTypeUserInfo list \<Rightarrow> string \<Rightarrow> int64 \<Rightarrow> fileTypeUserInfo list" where
  "addFileTypeUser [] username fsize = [\<lparr>ftu_name = username, ftu_size = fsize, ftu_count = 1\<rparr>]"
| "addFileTypeUser (x # xs) username fsize =
     (if ftu_name x = username
      then x\<lparr>ftu_size := ftu_size x + fsize, ftu_count := ftu_count x + 1\<rparr> # xs
      else x # addFileTypeUser xs username fsize)"

fun addFileType :: "fileType list \<Rightarrow> string \<Rightarrow> string \<Rightarrow> int64 \<Rightarrow> fileType list" where
  "addFileType [] extension username fsize =
     [\<lparr>ft_extension = extension, ft_size = fsize, ft_count = 1,
       ft_users = [\<lparr>ftu_name = username, ftu_size = fsize, ftu_count = 1\<rparr>]\<rparr>]"
| "addFileType (t # ts) extension username fsize =
     (if ft_extension t = extension
      then t\<lparr>ft_size := ft_size t + fsize, ft_count := ft_count t + 1,
             ft_users := addFileTypeUser (ft_users t) username fsize\<rparr> # ts
      else t # addFileType ts extension username fsize)"

fun addUserFileType :: "userFileType list \<Rightarrow> string \<Rightarrow> int64 \<Rightarrow> userFileType list" where
  "addUserFileType [] extension fsize =
     [\<lparr>uft_extension = extension, uft_size = fsize, uft_count = 1\<rparr>]"
| "addUserFileType (x # xs) extension fsize =
     (if uft_extension x = extension
      then x\<lparr>uft_size := uft_size x + fsize, uft_count := uft_count x + 1\<rparr> # xs
      else x # addUserFileType xs extension fsize)"

fun addUser :: "userInfo list \<Rightarrow> string \<Rightarrow> string \<Rightarrow> int64 \<Rightarrow> userInfo list" where
  "addUser [] username extension fsize =
     [\<lparr>ui_name = username, ui_size = fsize, ui_count = 1,
       ui_filetypes = [\<lparr>uft_extension = extension, uft_size = fsize, uft_count = 1\<rparr>]\<rparr>]"
| "addUser (u # us) username extension fsize =
     (if ui_name u = username
      then u\<lparr>ui_size := ui_size u + fsize, ui_count := ui_count u + 1,
             ui_filetypes := addUserFileType (ui_filetypes u) extension fsize\<rparr> # us
      else u # addUser us username extension fsize)"

definition aggregate :: "string \<Rightarrow> string \<Rightarrow> int64 \<Rightarrow> scan_state \<Rightarrow> scan_state" where
  "aggregate extension username fsize s =
     s\<lparr>fileTypes := addFileType (fileTypes s) extension username fsize,
       users := addUser (users s) username extension fsize\<rparr>"

section \<open>The classifier loop (main.go, lines 266 to 285)\<close>

text \<open>
  \<^verbatim>\<open>isBinary\<close> is declared before the loop over the lines and is never reset. The inner
  loop sets it at the first rune outside 32..126 and breaks.
\<close>

fun runeLoop :: "rune list \<Rightarrow> bool \<Rightarrow> bool" where
  "runeLoop [] isBinary = isBinary"
| "runeLoop (c # cs) isBinary = (if c < 32 \<or> c > 126 then True else runeLoop cs isBinary)"

fun scanLoop :: "nat \<Rightarrow> rune list list \<Rightarrow> bool \<times> string \<Rightarrow> bool \<times> string" where
  "scanLoop i [] st = st"
| "scanLoop i (line # rest) (isBinary, extension) =
     (if i < 10
      then (let isBinary' = runeLoop line isBinary;
                extension' = (if isBinary' then ''no_extension_binary'' else ''no_extension_text'')
            in scanLoop (i + 1) rest (isBinary', extension'))
      else (isBinary, extension))"

definition classify :: "rune list list \<Rightarrow> string" where
  "classify lines = snd (scanLoop 0 lines (False, ''''))"

section \<open>The walk callback of main.go (lines 217 to 441)\<close>

definition resolveExtension :: "bool \<Rightarrow> walk_entry \<Rightarrow> string flow" where
  "resolveExtension verboseEnabled e =
     (let extension = Ext (path e) in
      if extension = ''''
      then (case opened e of
              None \<Rightarrow> if verboseEnabled then GoOn ''no_extension_unknown_format'' else ReturnNil
            | Some lines \<Rightarrow> GoOn (classify lines))
      else GoOn extension)"

definition resolveOwner :: "bool \<Rightarrow> (string \<Rightarrow> User option) \<Rightarrow> FileInfo \<Rightarrow> User flow" where
  "resolveOwner verboseEnabled LookupId fi =
     (case LookupId (Sprintf_d (unat (fi_Uid fi))) of
        None \<Rightarrow>
          if verboseEnabled
          then GoOn \<lparr>u_Uid = Sprintf_d (unat (fi_Uid fi)), u_Username = ''''\<rparr>
          else ReturnNil
      | Some owner \<Rightarrow> GoOn owner)"

definition walkFn ::
  "bool \<Rightarrow> (string \<Rightarrow> User option) \<Rightarrow> walk_entry \<Rightarrow> scan_state \<Rightarrow> panic + scan_state" where
  "walkFn verboseEnabled LookupId e s =
     (if err e \<and> \<not> verboseEnabled then Inr s
      else case info e of
        None \<Rightarrow> Inl NilPointerDereference
      | Some fi \<Rightarrow>
          if \<not> fi_IsDir fi
          then (let s1 = s\<lparr>totalFilesCount := totalFilesCount s + 1\<rparr> in
                case resolveExtension verboseEnabled e of
                  ReturnNil \<Rightarrow> Inr s1
                | GoOn extension \<Rightarrow>
                    (let fsize = fi_Size fi;
                         s2 = s1\<lparr>totalCapacity := totalCapacity s1 + fsize\<rparr> in
                     case resolveOwner verboseEnabled LookupId fi of
                       ReturnNil \<Rightarrow> Inr s2
                     | GoOn owner \<Rightarrow> Inr (aggregate extension (u_Username owner) fsize s2)))
          else Inr (s\<lparr>totalDirectoriesCount := totalDirectoriesCount s + 1\<rparr>))"

text \<open>
  \<^verbatim>\<open>filepath.Walk\<close> calls the callback once per entry. The callback always returns
  nil, so the entries visited do not depend on its answers; a panic ends the program.
\<close>

fun Walk ::
  "(walk_entry \<Rightarrow> scan_state \<Rightarrow> panic + scan_state) \<Rightarrow> walk_entry list \<Rightarrow> scan_state
     \<Rightarrow> panic + scan_state" where
  "Walk fn [] s = Inr s"
| "Walk fn (e # es) s = (case fn e s of Inl p \<Rightarrow> Inl p | Inr s' \<Rightarrow> Walk fn es s')"


definition scan :: "bool \<Rightarrow> (string \<Rightarrow> User option) \<Rightarrow> walk_entry list \<Rightarrow> panic + scan_state" where
  "scan verboseEnabled LookupId es = Walk (walkFn verboseEnabled LookupId) es init_state"

section \<open>The callback of the earlier sequential programs\<close>

text \<open>
  The flag-driven predecessor of \<^verbatim>\<open>main.go\<close> and the one-argument program share this
  callback: the same statements, but no branch returns before the aggregation, and the
  walker's error is at most logged.
\<close>

definition walkFn_old ::
  "(string \<Rightarrow> User option) \<Rightarrow> walk_entry \<Rightarrow> scan_state \<Rightarrow> panic + scan_state" where
  "walkFn_old LookupId e s =
     (case info e of
        None \<Rightarrow> Inl NilPointerDereference
      | Some fi \<Rightarrow>
          if \<not> fi_IsDir fi
          then (let s1 = s\<lparr>totalFilesCount := totalFilesCount s + 1\<rparr>;
                    extension =
                      (if Ext (path e) = ''''
                       then (case opened e of
                               None \<Rightarrow> ''no_extension_unknown_format''
                             | Some lines \<Rightarrow> classify lines)
                       else Ext (path e));
                    fsize = fi_Size fi;
                    s2 = s1\<lparr>totalCapacity := totalCapacity s1 + fsize\<rparr>;
                    owner =
                      (case LookupId (Sprintf_d (unat (fi_Uid fi))) of
                         None \<Rightarrow> \<lparr>u_Uid = Sprintf_d (unat (fi_Uid fi)), u_Username = ''''\<rparr>
                       | Some owner \<Rightarrow> owner)
                in Inr (aggregate extension (u_Username owner) fsize s2))
          else Inr (s\<lparr>totalDirectoriesCount := totalDirectoriesCount s + 1\<rparr>))"

section \<open>Reading the two groupings\<close>

text \<open>
  The entry of user \<open>u\<close> inside the group of extension \<open>e\<close>, and the entry of
  extension \<open>e\<close> inside the group of user \<open>u\<close>, each as the pair (size, count); the
  first match, as the program's own loops find it.
\<close>

definition ft_entry :: "fileType list \<Rightarrow> string \<Rightarrow> string \<Rightarrow> (int64 \<times> int64) option" where
  "ft_entry fts e u =
     (case find (\<lambda>t. ft_extension t = e) fts of
        None \<Rightarrow> None
      | Some t \<Rightarrow>
          (case find (\<lambda>x. ftu_name x = u) (ft_users t) of
             None \<Rightarrow> None
           | Some x \<Rightarrow> Some (ftu_size x, ftu_count x)))"

definition u_entry :: "userInfo list \<Rightarrow> string \<Rightarrow> string \<Rightarrow> (int64 \<times> int64) option" where
  "u_entry us u e =
     (case find (\<lambda>g. ui_name g = u) us of
        None \<Rightarrow> None
      | Some g \<Rightarrow>
          (case find (\<lambda>x. uft_extension x = e) (ui_filetypes g) of
             None \<Rightarrow> None
           | Some x \<Rightarrow> Some (uft_size x, uft_count x)))"

text \<open>What one observation adds to an entry: a fresh (size, 1), or size and one more.\<close>

definition bump :: "int64 \<Rightarrow> (int64 \<times> int64) option \<Rightarrow> (int64 \<times> int64) option" where
  "bump fsize old = (case old of None \<Rightarrow> Some (fsize, 1) | Some (sz, c) \<Rightarrow> Some (sz + fsize, c + 1))"

definition fileTypes_keys_unique :: "fileType list \<Rightarrow> bool" where
  "fileTypes_keys_unique fts \<longleftrightarrow>
     distinct (map ft_extension fts) \<and> list_all (\<lambda>t. distinct (map ftu_name (ft_users t))) fts"

definition users_keys_unique :: "userInfo list \<Rightarrow> bool" where
  "users_keys_unique us \<longleftrightarrow>
     distinct (map ui_name us) \<and> list_all (\<lambda>g. distinct (map uft_extension (ui_filetypes g))) us"

definition keys_unique :: "scan_state \<Rightarrow> bool" where
  "keys_unique s \<longleftrightarrow> fileTypes_keys_unique (fileTypes s) \<and> users_keys_unique (users s)"

text \<open>The four sums over the groups, in the arithmetic of \<^verbatim>\<open>int64\<close>.\<close>

definition totals_agree :: "scan_state \<Rightarrow> bool" where
  "totals_agree s \<longleftrightarrow>
     sum_list (map ft_count (fileTypes s)) = totalFilesCount s \<and>
     sum_list (map ft_size (fileTypes s)) = totalCapacity s \<and>
     sum_list (map ui_count (users s)) = totalFilesCount s \<and>
     sum_list (map ui_size (users s)) = totalCapacity s"

section \<open>The worker-pool programs\<close>

text \<open>
  What the file system answers for one path: the walker's own (non-following) lstat and
  its error, then the two calls of \<^verbatim>\<open>processFile\<close>. \<open>Lstat\<close> carries the mode bits,
  \<open>Stat\<close> the size.
\<close>

datatype stat_error = NotExist | OtherError

definition ModeSymlink :: uint32 where
  "ModeSymlink = push_bit 27 1"

record pool_entry =
  p_path :: string
  p_info :: "FileInfo option"
  p_err :: bool
  Lstat :: "stat_error + uint32"
  Stat :: "stat_error + FileInfo"

record pool_totals =
  totalFileCount :: uint64
  p_totalCapacity :: uint64
  totalDirectories :: uint64

definition pool_init :: pool_totals where
  "pool_init = \<lparr>totalFileCount = 0, p_totalCapacity = 0, totalDirectories = 0\<rparr>"

definition processFile :: "pool_entry \<Rightarrow> uint64 \<times> stat_error option" where
  "processFile f =
     (if (case Lstat f of Inr mode \<Rightarrow> mode AND ModeSymlink \<noteq> 0 | Inl e \<Rightarrow> False)
      then (0, None)
      else (case Stat f of
              Inl e \<Rightarrow> if e = NotExist then (0, None) else (0, Some e)
            | Inr fileInfo \<Rightarrow> (fi_Size fileInfo, None)))"

text \<open>The body of a worker's loop for one received path.\<close>

definition workerStep :: "pool_entry \<Rightarrow> pool_totals \<Rightarrow> pool_totals" where
  "workerStep f t =
     (let fsize = fst (processFile f) in
      t\<lparr>totalFileCount := totalFileCount t + 1, p_totalCapacity := p_totalCapacity t + fsize\<rparr>)"

text \<open>
  The walker's callback of the first pool program, with the send on the unbuffered
  channel followed at once by the receiving worker's step (one worker, or any schedule in
  which the steps do not overlap).
\<close>

definition poolWalkFn :: "pool_entry \<Rightarrow> pool_totals \<Rightarrow> panic + pool_totals" where
  "poolWalkFn e t =
     (if p_err e then Inr t
      else case p_info e of
        None \<Rightarrow> Inl NilPointerDereference
      | Some fi \<Rightarrow>
          if \<not> fi_IsDir fi then Inr (workerStep e t)
          else Inr (t\<lparr>totalDirectories := totalDirectories t + 1\<rparr>))"

fun poolWalk ::
  "(pool_entry \<Rightarrow> pool_totals \<Rightarrow> panic + pool_totals) \<Rightarrow> pool_entry list \<Rightarrow> pool_totals
     \<Rightarrow> panic + pool_totals" where
  "poolWalk fn [] t = Inr t"
| "poolWalk fn (e # es) t = (case fn e t of Inl p \<Rightarrow> Inl p | Inr t' \<Rightarrow> poolWalk fn es t')"

text \<open>
  The average printed at the end: the first pool program tests the count, the second
  divides at once.
\<close>

definition avgFileSize :: "pool_totals \<Rightarrow> uint64" where
  "avgFileSize t =
     (if totalFileCount t > 0 then p_totalCapacity t div totalFileCount t else 0)"

definition avgFileSize_second :: "pool_totals \<Rightarrow> panic + uint64" where
  "avgFileSize_second t =
     (if totalFileCount t = 0 then Inl IntegerDivideByZero
      else Inr (p_totalCapacity t div totalFileCount t))"

section \<open>The size formatter of the pool programs\<close>

text \<open>
  \<^verbatim>\<open>float64(size)\<close> rounds an integer to 53 significant bits, ties to even; the result
  is again an integer. \<open>bitlen\<close> is the number of binary digits.
\<close>

fun bitlen :: "nat \<Rightarrow> nat" where
  "bitlen n = (if n = 0 then 0 else Suc (bitlen (n div 2)))"

declare bitlen.simps [simp del]

definition float64_of_nat :: "nat \<Rightarrow> nat" where
  "float64_of_nat n =
     (if n < 2 ^ 53 then n
      else (let sh = bitlen n - 53; q = n div 2 ^ sh; r = n mod 2 ^ sh; half = 2 ^ (sh - 1)
            in (if r > half \<or> (r = half \<and> odd q) then q + 1 else q) * 2 ^ sh))"

text \<open>
  \<^verbatim>\<open>%.1f\<close> of the quotient \<open>num / den\<close>: the nearest number of tenths, ties to even,
  printed with one digit after the point.
\<close>

definition Sprintf_1f :: "nat \<Rightarrow> nat \<Rightarrow> string" where
  "Sprintf_1f num den =
     (let q = (10 * num) div den; r = (10 * num) mod den;
          tenths = (if 2 * r > den \<or> (2 * r = den \<and> odd q) then q + 1 else q)
      in Sprintf_d (tenths div 10) @ ''.'' @ Sprintf_d (tenths mod 10))"

text \<open>
  The loop \<^verbatim>\<open>for n := size / unit; n >= unit; n /= unit\<close> with its two counters.
\<close>

function formatLoop :: "uint64 \<Rightarrow> int64 \<Rightarrow> nat \<Rightarrow> int64 \<times> nat" where
  "formatLoop n dv exp =
     (if n \<ge> 1024 then formatLoop (n div 1024) (dv * 1024) (exp + 1) else (dv, exp))"
  by pat_completeness auto
termination
proof (relation "measure (\<lambda>(n, dv, exp). unat n)")
  show "wf (measure (\<lambda>(n :: uint64, dv :: int64, exp :: nat). unat n))"
    by simp
next
  fix n :: uint64 and dv :: int64 and exp :: nat
  assume "1024 \<le> n"
  then have "1024 \<le> unat n"
    by (simp add: word_le_nat_alt)
  then have "unat n div 1024 < unat n"
    by simp
  then show "((n div 1024, dv * 1024, exp + 1), (n, dv, exp)) \<in> measure (\<lambda>(n, dv, exp). unat n)"
    by (simp add: unat_div)
qed

declare formatLoop.simps [simp del]

text \<open>
  \<open>dv\<close> is a power of two no larger than \<open>2 ^ 60\<close>, so \<^verbatim>\<open>float64(div)\<close> is \<open>dv\<close> itself and
  the floating-point quotient by it is exact.
\<close>

definition formatSize :: "uint64 \<Rightarrow> panic + string" where
  "formatSize sz =
     (if sz < 1024 then Inr (Sprintf_d (unat sz) @ '' B'')
      else (case formatLoop (sz div 1024) 1024 0 of
              (dv, exp) \<Rightarrow>
                if exp < length ''KMGTPE''
                then Inr (Sprintf_1f (float64_of_nat (unat sz)) (nat (sint dv)) @ '' ''
                          @ [''KMGTPE'' ! exp] @ ''iB'')
                else Inl IndexOutOfRange))"

section \<open>The formatter of main.go\<close>



section \<open>The formatter of the earlier sequential programs\<close>



section \<open>Sequences of observations\<close>

text \<open>
  The aggregation applied to a sequence of observations (extension, user name, size), in
  the order in which the walk delivers them.
\<close>

fun aggregate_all :: "(string \<times> string \<times> int64) list \<Rightarrow> scan_state \<Rightarrow> scan_state" where
  "aggregate_all [] s = s"
| "aggregate_all ((extension, username, fsize) # obs) s =
     aggregate_all obs (aggregate extension username fsize s)"

text \<open>
  The callback of the second pool program: no test of the walker's error, and the two
  directories that answer \<^verbatim>\<open>filepath.SkipDir\<close> (the walker then delivers nothing
  below them) leave the counters as they are.
\<close>

definition poolWalkFn_second :: "pool_entry \<Rightarrow> pool_totals \<Rightarrow> panic + pool_totals" where
  "poolWalkFn_second e t =
     (case p_info e of
        None \<Rightarrow> Inl NilPointerDereference
      | Some fi \<Rightarrow>
          if fi_IsDir fi \<and> p_path e = ''/proc'' then Inr t
          else if fi_IsDir fi \<and> p_path e = ''/run'' then Inr t
          else if \<not> fi_IsDir fi then Inr (workerStep e t)
          else Inr (t\<lparr>totalDirectories := totalDirectories t + 1\<rparr>))"

section \<open>Example inputs\<close>

text \<open>A user database that knows uid 1000 only, and a regular file as the walk delivers it.\<close>

definition passwd :: "string \<Rightarrow> User option" where
  "passwd uid = (if uid = ''1000'' then Some \<lparr>u_Uid = ''1000'', u_Username = ''alice''\<rparr> else None)"

definition regular_file :: "string \<Rightarrow> int64 \<Rightarrow> uint32 \<Rightarrow> rune list list option \<Rightarrow> walk_entry" where
  "regular_file p fsize uid content =
     \<lparr>path = p, info = Some \<lparr>fi_IsDir = False, fi_Size = fsize, fi_Uid = uid\<rparr>, err = False,
      opened = content\<rparr>"

section \<open>The walk preserves what every callback step preserves\<close>

lemma Walk_invariant:
  assumes step: "\<And>e s s'. fn e s = Inr s' \<Longrightarrow> P s \<Longrightarrow> P s'"
  shows "Walk fn es s = Inr s' \<Longrightarrow> P s \<Longrightarrow> P s'"
proof (induction es arbitrary: s)
  case Nil
  then show ?case by simp
next
  case (Cons e es)
  from Cons.prems(1) obtain s1 where s1: "fn e s = Inr s1" and rest: "Walk fn es s1 = Inr s'"
    by (auto split: sum.splits)
  from step [OF s1 Cons.prems(2)] have "P s1" .
  with Cons.IH [OF rest] show ?case .
qed

text \<open>
  A callback step either leaves both groupings alone or applies the aggregation once, to
  both of them with the same extension, user name and size.
\<close>

lemma walkFn_cases:
  assumes "walkFn v L e s = Inr s'"
  shows "(fileTypes s' = fileTypes s \<and> users s' = users s) \<or>
         (\<exists>ext nm sz. fileTypes s' = addFileType (fileTypes s) ext nm sz \<and>
                       users s' = addUser (users s) nm ext sz)"
  using assms
  by (fastforce simp: walkFn_def aggregate_def Let_def split: if_splits option.splits flow.splits)

lemma walkFn_True_old: "walkFn True L e s = walkFn_old L e s"
  by (auto simp: walkFn_def walkFn_old_def resolveExtension_def resolveOwner_def Let_def
      split: option.splits)

section \<open>Cross-consistency of the two groupings\<close>

lemma ftu_find_add:
  "(case find (\<lambda>x. ftu_name x = u) (addFileTypeUser xs nm sz) of
      None \<Rightarrow> None | Some x \<Rightarrow> Some (ftu_size x, ftu_count x)) =
   (if u = nm
    then bump sz (case find (\<lambda>x. ftu_name x = nm) xs of
                    None \<Rightarrow> None | Some x \<Rightarrow> Some (ftu_size x, ftu_count x))
    else (case find (\<lambda>x. ftu_name x = u) xs of
            None \<Rightarrow> None | Some x \<Rightarrow> Some (ftu_size x, ftu_count x)))"
  by (induction xs) (auto simp: bump_def)

lemma ft_entry_add:
  "ft_entry (addFileType fts ext nm sz) e u =
   (if e = ext \<and> u = nm then bump sz (ft_entry fts e u) else ft_entry fts e u)"
proof (induction fts)
  case Nil
  then show ?case by (auto simp: ft_entry_def bump_def)
next
  case (Cons t ts)
  show ?case
  proof (cases "ft_extension t = ext")
    case True
    then show ?thesis
      using ftu_find_add [of u "ft_users t" nm sz]
      by (auto simp: ft_entry_def)
  next
    case False
    with Cons show ?thesis
      by (auto simp: ft_entry_def)
  qed
qed

lemma uft_find_add:
  "(case find (\<lambda>x. uft_extension x = e) (addUserFileType xs ext sz) of
      None \<Rightarrow> None | Some x \<Rightarrow> Some (uft_size x, uft_count x)) =
   (if e = ext
    then bump sz (case find (\<lambda>x. uft_extension x = ext) xs of
                    None \<Rightarrow> None | Some x \<Rightarrow> Some (uft_size x, uft_count x))
    else (case find (\<lambda>x. uft_extension x = e) xs of
            None \<Rightarrow> None | Some x \<Rightarrow> Some (uft_size x, uft_count x)))"
  by (induction xs) (auto simp: bump_def)

lemma u_entry_add:
  "u_entry (addUser us nm ext sz) u e =
   (if u = nm \<and> e = ext then bump sz (u_entry us u e) else u_entry us u e)"
proof (induction us)
  case Nil
  then show ?case by (auto simp: u_entry_def bump_def)
next
  case (Cons g gs)
  show ?case
  proof (cases "ui_name g = nm")
    case True
    then show ?thesis
      using uft_find_add [of e "ui_filetypes g" ext sz]
      by (auto simp: u_entry_def)
  next
    case False
    with Cons show ?thesis
      by (auto simp: u_entry_def)
  qed
qed

lemma cross_step:
  assumes run: "walkFn v L e s = Inr s'"
    and inv: "\<forall>e u. ft_entry (fileTypes s) e u = u_entry (users s) u e"
  shows "\<forall>e u. ft_entry (fileTypes s') e u = u_entry (users s') u e"
  using walkFn_cases [OF run] inv
  by (auto simp: ft_entry_add u_entry_add)

text \<open>
  C2. After every walk that finishes, whatever the verbose flag, the user database and the
  entries delivered: the (size, count) entry of user \<open>u\<close> inside the group of extension
  \<open>e\<close> is the (size, count) entry of extension \<open>e\<close> inside the group of user \<open>u\<close>;
  in particular one exists exactly when the other does.
\<close>

theorem cross_consistency:
  assumes "scan verboseEnabled LookupId es = Inr s"
  shows "ft_entry (fileTypes s) e u = u_entry (users s) u e"
proof -
  let ?P = "\<lambda>s. \<forall>e u. ft_entry (fileTypes s) e u = u_entry (users s) u e"
  have start: "?P init_state"
    by (simp add: init_state_def ft_entry_def u_entry_def)
  have "?P s"
  proof (rule Walk_invariant [of "walkFn verboseEnabled LookupId" ?P es init_state s])
    show "\<And>e s s'. walkFn verboseEnabled LookupId e s = Inr s' \<Longrightarrow> ?P s \<Longrightarrow> ?P s'"
      by (rule cross_step)
    show "Walk (walkFn verboseEnabled LookupId) es init_state = Inr s"
      using assms by (simp add: scan_def)
    show "?P init_state"
      by (rule start)
  qed
  then show ?thesis by simp
qed

theorem cross_consistency_witness:
  "scan False passwd
     [regular_file ''/d/a.txt'' 10 1000 None, regular_file ''/d/b.txt'' 5 1000 None] =
   Inr \<lparr>fileTypes =
          [\<lparr>ft_extension = ''.txt'', ft_size = 15, ft_count = 2,
            ft_users = [\<lparr>ftu_name = ''alice'', ftu_size = 15, ftu_count = 2\<rparr>]\<rparr>],
        users =
          [\<lparr>ui_name = ''alice'', ui_size = 15, ui_count = 2,
            ui_filetypes = [\<lparr>uft_extension = ''.txt'', uft_size = 15, uft_count = 2\<rparr>]\<rparr>],
        totalFilesCount = 2, totalCapacity = 15, totalDirectoriesCount = 0\<rparr> \<and>
   ft_entry
     [\<lparr>ft_extension = ''.txt'', ft_size = 15, ft_count = 2,
       ft_users = [\<lparr>ftu_name = ''alice'', ftu_size = 15, ftu_count = 2\<rparr>]\<rparr>] ''.txt'' ''alice'' =
   u_entry
     [\<lparr>ui_name = ''alice'', ui_size = 15, ui_count = 2,
       ui_filetypes = [\<lparr>uft_extension = ''.txt'', uft_size = 15, uft_count = 2\<rparr>]\<rparr>]
     ''alice'' ''.txt''"
proof -
  have run: "scan False passwd
     [regular_file ''/d/a.txt'' 10 1000 None, regular_file ''/d/b.txt'' 5 1000 None] =
   Inr \<lparr>fileTypes =
          [\<lparr>ft_extension = ''.txt'', ft_size = 15, ft_count = 2,
            ft_users = [\<lparr>ftu_name = ''alice'', ftu_size = 15, ftu_count = 2\<rparr>]\<rparr>],
        users =
          [\<lparr>ui_name = ''alice'', ui_size = 15, ui_count = 2,
            ui_filetypes = [\<lparr>uft_extension = ''.txt'', uft_size = 15, uft_count = 2\<rparr>]\<rparr>],
        totalFilesCount = 2, totalCapacity = 15, totalDirectoriesCount = 0\<rparr>"
    by code_simp
  from cross_consistency [OF run, of "''.txt''" "''alice''"] run show ?thesis
    by simp
qed

section \<open>Uniqueness of the keys\<close>

lemma names_addFileTypeUser:
  "set (map ftu_name (addFileTypeUser xs nm sz)) = insert nm (set (map ftu_name xs))"
  by (induction xs) auto

lemma distinct_addFileTypeUser:
  "distinct (map ftu_name xs) \<Longrightarrow> distinct (map ftu_name (addFileTypeUser xs nm sz))"
proof (induction xs)
  case Nil
  then show ?case by simp
next
  case (Cons x xs)
  then show ?case
    using names_addFileTypeUser [of xs nm sz] by auto
qed

lemma extensions_addFileType:
  "set (map ft_extension (addFileType fts ext nm sz)) = insert ext (set (map ft_extension fts))"
  by (induction fts) auto

lemma fileTypes_keys_unique_add:
  "fileTypes_keys_unique fts \<Longrightarrow> fileTypes_keys_unique (addFileType fts ext nm sz)"
proof (induction fts)
  case Nil
  then show ?case by (simp add: fileTypes_keys_unique_def)
next
  case (Cons t ts)
  then show ?case
    using extensions_addFileType [of ts ext nm sz]
    by (auto simp: fileTypes_keys_unique_def distinct_addFileTypeUser)
qed

lemma extensions_addUserFileType:
  "set (map uft_extension (addUserFileType xs ext sz)) = insert ext (set (map uft_extension xs))"
  by (induction xs) auto

lemma distinct_addUserFileType:
  "distinct (map uft_extension xs) \<Longrightarrow> distinct (map uft_extension (addUserFileType xs ext sz))"
proof (induction xs)
  case Nil
  then show ?case by simp
next
  case (Cons x xs)
  then show ?case
    using extensions_addUserFileType [of xs ext sz] by auto
qed

lemma names_addUser:
  "set (map ui_name (addUser us nm ext sz)) = insert nm (set (map ui_name us))"
  by (induction us) auto

lemma users_keys_unique_add:
  "users_keys_unique us \<Longrightarrow> users_keys_unique (addUser us nm ext sz)"
proof (induction us)
  case Nil
  then show ?case by (simp add: users_keys_unique_def)
next
  case (Cons g gs)
  then show ?case
    using names_addUser [of gs nm ext sz]
    by (auto simp: users_keys_unique_def distinct_addUserFileType)
qed

lemma keys_unique_aggregate:
  "keys_unique s \<Longrightarrow> keys_unique (aggregate ext nm sz s)"
  by (simp add: keys_unique_def aggregate_def fileTypes_keys_unique_add users_keys_unique_add)

lemma keys_unique_aggregate_all:
  "keys_unique s \<Longrightarrow> keys_unique (aggregate_all obs s)"
  by (induction obs s rule: aggregate_all.induct) (simp_all add: keys_unique_aggregate)

lemma keys_unique_init: "keys_unique init_state"
  by (simp add: keys_unique_def init_state_def fileTypes_keys_unique_def users_keys_unique_def)

lemma keys_unique_step:
  assumes run: "walkFn v L e s = Inr s'" and inv: "keys_unique s"
  shows "keys_unique s'"
  using walkFn_cases [OF run] inv
  by (auto simp: keys_unique_def fileTypes_keys_unique_add users_keys_unique_add)

lemma keys_unique_scan:
  assumes "scan v L es = Inr s"
  shows "keys_unique s"
proof (rule Walk_invariant [of "walkFn v L" keys_unique es init_state s])
  show "\<And>e s s'. walkFn v L e s = Inr s' \<Longrightarrow> keys_unique s \<Longrightarrow> keys_unique s'"
    by (rule keys_unique_step)
  show "Walk (walkFn v L) es init_state = Inr s"
    using assms by (simp add: scan_def)
  show "keys_unique init_state"
    by (rule keys_unique_init)
qed

text \<open>
  C10. In the state reached from the empty one by any sequence of observations, and in the
  state at the end of any finished walk, no extension labels two \<^verbatim>\<open>fileTypes\<close> entries, no
  user name two \<^verbatim>\<open>users\<close> entries, and inside each group no nested key occurs twice; one
  lookup-or-create update of a state with unique keys gives a state with unique keys.
\<close>

theorem key_uniqueness:
  "keys_unique (aggregate_all obs init_state) \<and>
   (keys_unique s \<longrightarrow> keys_unique (aggregate extension username fsize s)) \<and>
   (scan verboseEnabled LookupId es = Inr s' \<longrightarrow> keys_unique s')"
  using keys_unique_aggregate_all [OF keys_unique_init, of obs]
    keys_unique_aggregate [of s extension username fsize]
    keys_unique_scan [of verboseEnabled LookupId es s']
  by blast

theorem key_uniqueness_witness:
  "keys_unique (aggregate_all [(''.txt'', ''alice'', 10), (''.txt'', ''bob'', 3), (''.go'', ''alice'', 7)]
      init_state) \<and>
   keys_unique (aggregate ''.txt'' ''alice'' 10 init_state) \<and>
   keys_unique (aggregate ''.txt'' ''alice'' 4 (aggregate ''.txt'' ''alice'' 10 init_state)) \<and>
   scan False passwd [regular_file ''/d/a.txt'' 10 1000 None] =
     Inr (aggregate ''.txt'' ''alice'' 10 (init_state\<lparr>totalFilesCount := 1, totalCapacity := 10\<rparr>)) \<and>
   keys_unique (aggregate ''.txt'' ''alice'' 10 (init_state\<lparr>totalFilesCount := 1, totalCapacity := 10\<rparr>))"
proof -
  have pre: "keys_unique (aggregate ''.txt'' ''alice'' 10 init_state)"
    by code_simp
  have run: "scan False passwd [regular_file ''/d/a.txt'' 10 1000 None] =
     Inr (aggregate ''.txt'' ''alice'' 10 (init_state\<lparr>totalFilesCount := 1, totalCapacity := 10\<rparr>))"
    by code_simp
  from key_uniqueness
    [of "[(''.txt'', ''alice'', 10), (''.txt'', ''bob'', 3), (''.go'', ''alice'', 7)]"
      "aggregate ''.txt'' ''alice'' 10 init_state" "''.txt''" "''alice''" 4
      False passwd "[regular_file ''/d/a.txt'' 10 1000 None]"
      "aggregate ''.txt'' ''alice'' 10 (init_state\<lparr>totalFilesCount := 1, totalCapacity := 10\<rparr>)"]
    pre run
  show ?thesis by blast
qed

section \<open>The classifier\<close>

lemma runeLoop_any:
  "runeLoop line b \<longleftrightarrow> b \<or> (\<exists>c \<in> set line. c < 32 \<or> 126 < c)"
  by (induction line) auto

lemma scanLoop_any:
  "i \<le> 10 \<Longrightarrow> take (10 - i) lines \<noteq> [] \<Longrightarrow>
   scanLoop i lines (b, ext) =
     (let b' = (b \<or> (\<exists>line \<in> set (take (10 - i) lines). \<exists>c \<in> set line. c < 32 \<or> 126 < c))
      in (b', if b' then ''no_extension_binary'' else ''no_extension_text''))"
proof (induction lines arbitrary: i b ext)
  case Nil
  then show ?case by simp
next
  case (Cons line rest)
  from Cons.prems have i: "i < 10" by (cases "i = 10") auto
  then obtain k where k: "10 - i = Suc k" by (cases "10 - i") auto
  then have k': "10 - (i + 1) = k" by simp
  show ?case
  proof (cases "take k rest = []")
    case True
    then have "k = 0 \<or> rest = []" by (cases rest; cases k) auto
    then have skip: "scanLoop (i + 1) rest (b1, e1) = (b1, e1)" for b1 e1
    proof
      assume "k = 0"
      with k have "\<not> i + 1 < 10" by simp
      then show ?thesis by (cases rest) auto
    next
      assume "rest = []"
      then show ?thesis by simp
    qed
    have "scanLoop i (line # rest) (b, ext) =
            (runeLoop line b,
             if runeLoop line b then ''no_extension_binary'' else ''no_extension_text'')"
      using i skip by (simp add: Let_def)
    moreover have "take (10 - i) (line # rest) = [line]"
      unfolding k using True by simp
    ultimately show ?thesis
      by (simp add: runeLoop_any Let_def)
  next
    case False
    have "scanLoop i (line # rest) (b, ext) =
            scanLoop (i + 1) rest
              (runeLoop line b,
               if runeLoop line b then ''no_extension_binary'' else ''no_extension_text'')"
      using i by (simp add: Let_def)
    also have "\<dots> =
        (let b' = (runeLoop line b \<or>
                   (\<exists>l \<in> set (take k rest). \<exists>c \<in> set l. c < 32 \<or> 126 < c))
         in (b', if b' then ''no_extension_binary'' else ''no_extension_text''))"
    proof -
      have le: "i + 1 \<le> 10" using i by simp
      have ne: "take (10 - (i + 1)) rest \<noteq> []" using False k' by simp
      show ?thesis
        using Cons.IH [OF le ne] unfolding k' .
    qed
    finally show ?thesis
      using k by (auto simp: runeLoop_any Let_def)
  qed
qed

lemma classify_any:
  assumes "lines \<noteq> []"
  shows "classify lines =
     (if \<exists>line \<in> set (take 10 lines). \<exists>c \<in> set line. c < 32 \<or> 126 < c
      then ''no_extension_binary'' else ''no_extension_text'')"
proof -
  from assms have "take (10 - 0) lines \<noteq> []" by simp
  from scanLoop_any [OF _ this, of False "''''"] show ?thesis
    by (simp add: classify_def Let_def)
qed

text \<open>A file in which the scanner finds no line keeps the empty extension.\<close>

lemma classify_no_line: "classify [] = ''''"
  by (simp add: classify_def)

text \<open>
  C3 as stated fails. A file whose first line holds the bell character (7) and whose
  second and last line is the letter A is labelled binary, though the last line, examined
  from a cleared flag, does not set the flag.
\<close>

theorem label_by_last_line_counterexample:
  "resolveExtension True (regular_file ''/d/notes'' 3 1000 (Some [[7], [65]])) \<noteq>
   GoOn (if runeLoop (last (take 10 [[7], [65]])) False
         then ''no_extension_binary'' else ''no_extension_text'')"
  by code_simp

text \<open>
  C3 as amended. For an extension-less file that opens and yields at least one line, the
  label is \<^verbatim>\<open>no_extension_binary\<close> exactly when one of the first ten lines holds a rune
  outside 32..126, and \<^verbatim>\<open>no_extension_text\<close> otherwise; the verbose flag plays no part.
\<close>

theorem label_by_any_line:
  assumes "Ext (path e) = ''''" and "opened e = Some lines" and "lines \<noteq> []"
  shows "resolveExtension verboseEnabled e =
     GoOn (if \<exists>line \<in> set (take 10 lines). \<exists>c \<in> set line. c < 32 \<or> 126 < c
           then ''no_extension_binary'' else ''no_extension_text'')"
  using assms by (simp add: resolveExtension_def classify_any)

theorem label_by_any_line_witness:
  "Ext (path (regular_file ''/d/notes'' 3 1000 (Some [[7], [65]]))) = '''' \<and>
   opened (regular_file ''/d/notes'' 3 1000 (Some [[7], [65]])) = Some [[7], [65]] \<and>
   [[7], [65 :: nat]] \<noteq> [] \<and>
   resolveExtension False (regular_file ''/d/notes'' 3 1000 (Some [[7], [65]])) =
     GoOn ''no_extension_binary''"
proof -
  have a: "Ext (path (regular_file ''/d/notes'' 3 1000 (Some [[7], [65]]))) = ''''"
    by code_simp
  have b: "opened (regular_file ''/d/notes'' 3 1000 (Some [[7], [65]])) = Some [[7], [65]]"
    by (simp add: regular_file_def)
  have c: "[[7], [65 :: nat]] \<noteq> []"
    by simp
  from label_by_any_line [OF a b c, of False] a b c show ?thesis
    by simp
qed

section \<open>The size formatter\<close>

lemma formatLoop_stop: "\<not> 1024 \<le> n \<Longrightarrow> formatLoop n dv exp = (dv, exp)"
  by (simp add: formatLoop.simps)

lemma formatLoop_step: "1024 \<le> n \<Longrightarrow> formatLoop n dv exp = formatLoop (n div 1024) (dv * 1024) (exp + 1)"
  by (subst formatLoop.simps) simp

text \<open>
  The loop multiplies the divisor by 1024 once per round, and a 64-bit size allows at
  most five rounds: the index into \<^verbatim>\<open>"KMGTPE"\<close> stays in range and the formatter
  returns a string for every size.
\<close>

lemma formatLoop_power:
  "unat n < 1024 ^ Suc j \<Longrightarrow> \<exists>k \<le> j. formatLoop n dv exp = (dv * 1024 ^ k, exp + k)"
proof (induction j arbitrary: n dv exp)
  case 0
  then have "\<not> 1024 \<le> n"
    by (simp add: word_le_nat_alt)
  then show ?case
    by (simp add: formatLoop_stop)
next
  case (Suc j)
  show ?case
  proof (cases "1024 \<le> n")
    case False
    then have "formatLoop n dv exp = (dv * 1024 ^ 0, exp + 0)"
      by (simp add: formatLoop_stop)
    then show ?thesis by blast
  next
    case True
    have "unat (n div 1024) = unat n div 1024"
      by (simp add: unat_div)
    also have "\<dots> < 1024 ^ Suc j"
      using Suc.prems by (simp add: less_mult_imp_div_less)
    finally obtain k where k: "k \<le> j"
      and run: "formatLoop (n div 1024) (dv * 1024) (exp + 1) = (dv * 1024 * 1024 ^ k, exp + 1 + k)"
      using Suc.IH [of "n div 1024" "dv * 1024" "exp + 1"] by blast
    from True run have "formatLoop n dv exp = (dv * 1024 ^ Suc k, exp + Suc k)"
      by (simp add: formatLoop_step mult.assoc)
    with k show ?thesis
      by (metis Suc_le_mono)
  qed
qed

lemma formatSize_no_panic: "\<exists>str. formatSize sz = Inr str"
proof (cases "sz < 1024")
  case True
  then show ?thesis by (simp add: formatSize_def)
next
  case False
  have "unat (sz div 1024) = unat sz div 1024"
    by (simp add: unat_div)
  also have "\<dots> < 1024 ^ Suc 5"
  proof -
    have "unat sz < 2 ^ 64"
      using unsigned_less [of sz] by simp
    then show ?thesis by simp
  qed
  finally obtain k where "k \<le> 5"
    and "formatLoop (sz div 1024) 1024 0 = (1024 * 1024 ^ k, 0 + k)"
    using formatLoop_power [of "sz div 1024" 5 1024 0] by blast
  with False show ?thesis
    by (simp add: formatSize_def)
qed






















section \<open>Totals against the sums over the groups\<close>

lemma sum_count_addFileType:
  "sum_list (map ft_count (addFileType fts ext nm sz)) = sum_list (map ft_count fts) + 1"
  by (induction fts) auto

lemma sum_size_addFileType:
  "sum_list (map ft_size (addFileType fts ext nm sz)) = sum_list (map ft_size fts) + sz"
  by (induction fts) auto

lemma sum_count_addUser:
  "sum_list (map ui_count (addUser us nm ext sz)) = sum_list (map ui_count us) + 1"
  by (induction us) auto

lemma sum_size_addUser:
  "sum_list (map ui_size (addUser us nm ext sz)) = sum_list (map ui_size us) + sz"
  by (induction us) auto

lemma totals_agree_step_old:
  assumes "walkFn_old L e s = Inr s'" and "totals_agree s"
  shows "totals_agree s'"
  using assms
  by (auto simp: walkFn_old_def totals_agree_def aggregate_def Let_def sum_count_addFileType
      sum_size_addFileType sum_count_addUser sum_size_addUser split: option.splits if_splits)

text \<open>
  Where no branch returns between the counting and the aggregation (the earlier
  programs, and \<^verbatim>\<open>main.go\<close> with the verbose flag), a finished walk leaves the four sums
  equal to the totals.
\<close>

lemma totals_agree_old:
  assumes "Walk (walkFn_old L) es init_state = Inr s"
  shows "totals_agree s"
proof (rule Walk_invariant [of "walkFn_old L" totals_agree es init_state s])
  show "\<And>e s s'. walkFn_old L e s = Inr s' \<Longrightarrow> totals_agree s \<Longrightarrow> totals_agree s'"
    by (rule totals_agree_step_old)
  show "Walk (walkFn_old L) es init_state = Inr s"
    by (rule assms)
  show "totals_agree init_state"
    by (simp add: totals_agree_def init_state_def)
qed

lemma totals_agree_verbose:
  assumes "scan True L es = Inr s"
  shows "totals_agree s"
proof -
  have "walkFn True L = walkFn_old L"
    by (intro ext) (rule walkFn_True_old)
  with assms show ?thesis
    by (simp add: scan_def totals_agree_old)
qed

text \<open>
  C1 at a failing input. Without the verbose flag, a file \<^verbatim>\<open>/d/a.txt\<close> of 10 bytes whose
  owner 501 is unknown to the user database is counted (one file, 10 bytes) and the
  callback then returns: both groupings stay empty, so their sums are 0.
\<close>

theorem totals_disagree_example:
  "scan False passwd [regular_file ''/d/a.txt'' 10 501 None] =
     Inr \<lparr>fileTypes = [], users = [], totalFilesCount = 1, totalCapacity = 10,
          totalDirectoriesCount = 0\<rparr> \<and>
   \<not> totals_agree \<lparr>fileTypes = [], users = [], totalFilesCount = 1, totalCapacity = 10,
          totalDirectoriesCount = 0\<rparr>"
  by code_simp

section \<open>Owner lookup\<close>

lemma resolveOwner_failure_verbose:
  "LookupId (Sprintf_d (unat (fi_Uid fi))) = None \<Longrightarrow>
   resolveOwner True LookupId fi = GoOn \<lparr>u_Uid = Sprintf_d (unat (fi_Uid fi)), u_Username = ''''\<rparr>"
  by (simp add: resolveOwner_def)

lemma resolveOwner_failure_quiet:
  "LookupId (Sprintf_d (unat (fi_Uid fi))) = None \<Longrightarrow> resolveOwner False LookupId fi = ReturnNil"
  by (simp add: resolveOwner_def)

text \<open>
  In the earlier sequential programs every file whose owner lookup fails is aggregated
  under the empty user name.
\<close>

lemma walkFn_old_failed_lookup:
  assumes "info e = Some fi" and "\<not> fi_IsDir fi"
    and "LookupId (Sprintf_d (unat (fi_Uid fi))) = None"
  shows "\<exists>extension. walkFn_old LookupId e s =
     Inr (aggregate extension '''' (fi_Size fi)
           (s\<lparr>totalFilesCount := totalFilesCount s + 1,
              totalCapacity := totalCapacity s + fi_Size fi\<rparr>))"
  using assms by (auto simp: walkFn_old_def Let_def)

text \<open>
  C4 at a failing input. With the verbose flag, the same file of the unknown owner 501 is
  aggregated, but under the empty user name: the fallback fills the \<^verbatim>\<open>Uid\<close> field with
  "501" and the aggregation reads \<^verbatim>\<open>Username\<close>.
\<close>

theorem failed_lookup_example:
  "scan True passwd [regular_file ''/d/a.txt'' 10 501 None] =
     Inr \<lparr>fileTypes =
            [\<lparr>ft_extension = ''.txt'', ft_size = 10, ft_count = 1,
              ft_users = [\<lparr>ftu_name = '''', ftu_size = 10, ftu_count = 1\<rparr>]\<rparr>],
          users =
            [\<lparr>ui_name = '''', ui_size = 10, ui_count = 1,
              ui_filetypes = [\<lparr>uft_extension = ''.txt'', uft_size = 10, uft_count = 1\<rparr>]\<rparr>],
          totalFilesCount = 1, totalCapacity = 10, totalDirectoriesCount = 0\<rparr> \<and>
   Sprintf_d (unat (501 :: uint32)) = ''501''"
  by code_simp

section \<open>The average of the pool programs\<close>

lemma avgFileSize_guarded: "totalFileCount t = 0 \<Longrightarrow> avgFileSize t = 0"
  by (simp add: avgFileSize_def)

text \<open>
  C5 at a failing input. The second pool program, run on a tree that holds one directory
  and no file, ends the walk with a file count of 0 and divides by it.
\<close>

theorem average_unguarded_example:
  "poolWalk poolWalkFn_second
     [\<lparr>p_path = ''/d'', p_info = Some \<lparr>fi_IsDir = True, fi_Size = 4096, fi_Uid = 1000\<rparr>,
       p_err = False, Lstat = Inr 0, Stat = Inr \<lparr>fi_IsDir = True, fi_Size = 4096, fi_Uid = 1000\<rparr>\<rparr>]
     pool_init =
     Inr \<lparr>totalFileCount = 0, p_totalCapacity = 0, totalDirectories = 1\<rparr> \<and>
   avgFileSize_second \<lparr>totalFileCount = 0, p_totalCapacity = 0, totalDirectories = 1\<rparr> =
     Inl IntegerDivideByZero"
  by code_simp

section \<open>Errors of the traversal\<close>

lemma walkFn_quiet_skips: "err e \<Longrightarrow> walkFn False L e s = Inr s"
  by (simp add: walkFn_def)

lemma poolWalkFn_skips: "p_err e \<Longrightarrow> poolWalkFn e t = Inr t"
  by (simp add: poolWalkFn_def)

text \<open>
  With a \<^verbatim>\<open>FileInfo\<close> at hand the callback of \<^verbatim>\<open>main.go\<close> always returns: neither a
  failed open nor a failed owner lookup ends the walk.
\<close>

lemma walkFn_no_panic:
  "info e = Some fi \<Longrightarrow> \<exists>s'. walkFn v L e s = Inr s'"
  by (simp add: walkFn_def Let_def split: flow.splits)

lemma walkFn_verbose_counts_unreadable_directory:
  "err e \<Longrightarrow> info e = Some fi \<Longrightarrow> fi_IsDir fi \<Longrightarrow>
   walkFn True L e s = Inr (s\<lparr>totalDirectoriesCount := totalDirectoriesCount s + 1\<rparr>)"
  by (simp add: walkFn_def)

text \<open>
  C6 at a failing input. An entry whose lstat failed reaches the callback with an error and
  a nil \<^verbatim>\<open>FileInfo\<close>. With the verbose flag \<^verbatim>\<open>main.go\<close> logs and goes on to
  \<^verbatim>\<open>info.IsDir()\<close>; so do the earlier sequential programs and the second pool program,
  which never test the error.
\<close>

theorem walk_error_example:
  "scan True passwd [\<lparr>path = ''/d/gone'', info = None, err = True, opened = None\<rparr>] =
     Inl NilPointerDereference \<and>
   Walk (walkFn_old passwd) [\<lparr>path = ''/d/gone'', info = None, err = True, opened = None\<rparr>]
     init_state = Inl NilPointerDereference \<and>
   poolWalk poolWalkFn_second
     [\<lparr>p_path = ''/d/gone'', p_info = None, p_err = True, Lstat = Inl NotExist,
       Stat = Inl NotExist\<rparr>] pool_init = Inl NilPointerDereference"
  by code_simp

section \<open>Files that cannot be opened\<close>

lemma unopenable_aggregated_old:
  "Walk (walkFn_old passwd) [regular_file ''/d/README'' 10 1000 None] init_state =
     Inr (aggregate ''no_extension_unknown_format'' ''alice'' 10
           (init_state\<lparr>totalFilesCount := 1, totalCapacity := 10\<rparr>))"
  by code_simp

lemma unopenable_aggregated_verbose:
  "scan True passwd [regular_file ''/d/README'' 10 1000 None] =
     Inr (aggregate ''no_extension_unknown_format'' ''alice'' 10
           (init_state\<lparr>totalFilesCount := 1, totalCapacity := 10\<rparr>))"
  by code_simp

text \<open>
  C7 at a failing input. Without the verbose flag, the extension-less file
  \<^verbatim>\<open>/d/README\<close> that cannot be opened is counted as a file and then dropped: no capacity,
  no group.
\<close>

theorem unopenable_dropped_example:
  "scan False passwd [regular_file ''/d/README'' 10 1000 None] =
     Inr \<lparr>fileTypes = [], users = [], totalFilesCount = 1, totalCapacity = 0,
          totalDirectoriesCount = 0\<rparr>"
  by code_simp

section \<open>Symbolic links in the pool programs\<close>

lemma processFile_symlink:
  "Lstat f = Inr mode \<Longrightarrow> mode AND ModeSymlink \<noteq> 0 \<Longrightarrow> processFile f = (0, None)"
  by (simp add: processFile_def)

lemma workerStep_symlink:
  "Lstat f = Inr mode \<Longrightarrow> mode AND ModeSymlink \<noteq> 0 \<Longrightarrow>
   workerStep f t = t\<lparr>totalFileCount := totalFileCount t + 1, p_totalCapacity := p_totalCapacity t\<rparr>"
  by (simp add: workerStep_def processFile_symlink)

text \<open>
  C8 at a failing input. A tree that holds one symbolic link: the walker's lstat does not
  call it a directory, \<^verbatim>\<open>processFile\<close> sees the link bit and answers size 0, and the
  worker adds one to the file count all the same.
\<close>

theorem symlink_counted_example:
  "poolWalk poolWalkFn
     [\<lparr>p_path = ''/d/link'', p_info = Some \<lparr>fi_IsDir = False, fi_Size = 7, fi_Uid = 1000\<rparr>,
       p_err = False, Lstat = Inr (ModeSymlink OR 511),
       Stat = Inr \<lparr>fi_IsDir = False, fi_Size = 2048, fi_Uid = 1000\<rparr>\<rparr>]
     pool_init =
   Inr \<lparr>totalFileCount = 1, p_totalCapacity = 0, totalDirectories = 0\<rparr>"
  by code_simp

end
